theory Spec2Isabelle
  imports Main
begin

section \<open>Strings\<close>

text \<open>
  A JavaScript string is modelled as a \<^typ>\<open>string\<close> of ASCII characters. Case mapping
  is the ASCII one: \<open>toUpperCase\<close> and \<open>toLowerCase\<close> exchange \<open>a-z\<close> and \<open>A-Z\<close>
  and leave every other character as it is. The character class \<open>[A-Z]\<close> of the regular
  expression in \<open>caseConverter\<close> is \<open>isUpperAZ\<close>.
\<close>

definition upperAZ :: string where
  "upperAZ = ''ABCDEFGHIJKLMNOPQRSTUVWXYZ''"

definition lowerAZ :: string where
  "lowerAZ = ''abcdefghijklmnopqrstuvwxyz''"

definition isUpperAZ :: "char \<Rightarrow> bool" where
  "isUpperAZ c = (c \<in> set upperAZ)"

definition toLowerChar :: "char \<Rightarrow> char" where
  "toLowerChar c = (case map_of (zip upperAZ lowerAZ) c of Some l \<Rightarrow> l | None \<Rightarrow> c)"

definition toUpperChar :: "char \<Rightarrow> char" where
  "toUpperChar c = (case map_of (zip lowerAZ upperAZ) c of Some u \<Rightarrow> u | None \<Rightarrow> c)"

definition toLowerCase :: "string \<Rightarrow> string" where
  "toLowerCase s = map toLowerChar s"

definition toUpperCase :: "string \<Rightarrow> string" where
  "toUpperCase s = map toUpperChar s"

text \<open>\<open>Array.prototype.join\<close> on an array of strings.\<close>

fun join :: "string \<Rightarrow> string list \<Rightarrow> string" where
  "join sep [] = []"
| "join sep [x] = x"
| "join sep (x # y # ys) = x @ sep @ join sep (y # ys)"

text \<open>
  \<open>str.split(/(?=[A-Z])/)\<close>. The pattern matches the empty string in front of an
  upper-case letter. \<open>split\<close> walks the string with the start \<open>p\<close> of the current segment
  and a position \<open>q\<close>; an empty match at \<open>q = p\<close> is skipped, so no segment is empty and
  the string is never cut in front of its first character. \<open>splitFrom cur rest\<close> holds the
  current segment \<open>cur\<close> (the characters from \<open>p\<close> up to \<open>q\<close>) and the characters from
  \<open>q\<close> on. On the empty string the pattern does not match and the result is the one
  segment \<open>''''\<close>.
\<close>

fun splitFrom :: "string \<Rightarrow> string \<Rightarrow> string list" where
  "splitFrom cur [] = [cur]"
| "splitFrom cur (c # cs) =
     (if isUpperAZ c \<and> cur \<noteq> [] then cur # splitFrom [c] cs
      else splitFrom (cur @ [c]) cs)"

definition splitBeforeUpper :: "string \<Rightarrow> string list" where
  "splitBeforeUpper str = splitFrom [] str"

section \<open>caseConverter\<close>

definition caseConverter :: "string \<Rightarrow> string" where
  "caseConverter str =
     (if length str = 0 then str
      else
        let isUppercase = ([str ! 0] = toUpperCase [str ! 0]);
            result = toLowerCase (join ''-'' (splitBeforeUpper str))
        in if isUppercase then ''-'' @ result else result)"

section \<open>JavaScript values\<close>

text \<open>
  The values \<open>toCss\<close> and \<open>injectStyle\<close> can meet at run time. The type \<open>'n\<close> is the
  type of numbers; the code observes a number only through its truthiness and its
  conversion to a string, which are the two fields of \<open>numops\<close>. An object is the list
  of its own enumerable string-keyed properties in the order \<open>Object.entries\<close> lists them.
  Functions, symbols, big integers and objects with accessors or with a \<open>toString\<close> of
  their own are outside the model.
\<close>

datatype 'n jsval =
    JUndefined
  | JNull
  | JBool bool
  | JNum 'n
  | JStr string
  | JArr "'n jsval list"
  | JObj "(string \<times> 'n jsval) list"

record 'n numops =
  numFalsy :: "'n \<Rightarrow> bool"
  numString :: "'n \<Rightarrow> string"

datatype error = TypeError string | Error string

fun typeof :: "'n jsval \<Rightarrow> string" where
  "typeof JUndefined = ''undefined''"
| "typeof JNull = ''object''"
| "typeof (JBool b) = ''boolean''"
| "typeof (JNum n) = ''number''"
| "typeof (JStr s) = ''string''"
| "typeof (JArr xs) = ''object''"
| "typeof (JObj kvs) = ''object''"

fun isArray :: "'n jsval \<Rightarrow> bool" where
  "isArray (JArr xs) = True"
| "isArray _ = False"

text \<open>\<open>!v\<close>: the values that convert to \<open>false\<close>.\<close>

fun falsy :: "'n numops \<Rightarrow> 'n jsval \<Rightarrow> bool" where
  "falsy N JUndefined = True"
| "falsy N JNull = True"
| "falsy N (JBool b) = (\<not> b)"
| "falsy N (JNum n) = numFalsy N n"
| "falsy N (JStr s) = (s = [])"
| "falsy N (JArr xs) = False"
| "falsy N (JObj kvs) = False"

text \<open>
  The conversion to a string that a template literal applies to \<open>${value}\<close>. An array is
  its elements joined by commas, where \<open>undefined\<close> and \<open>null\<close> elements give the empty
  string; a plain object is \<open>[object Object]\<close>.
\<close>

fun toStr :: "'n numops \<Rightarrow> 'n jsval \<Rightarrow> string" where
  "toStr N JUndefined = ''undefined''"
| "toStr N JNull = ''null''"
| "toStr N (JBool b) = (if b then ''true'' else ''false'')"
| "toStr N (JNum n) = numString N n"
| "toStr N (JStr s) = s"
| "toStr N (JArr xs) =
     join '','' (map (\<lambda>x. case x of JUndefined \<Rightarrow> [] | JNull \<Rightarrow> [] | _ \<Rightarrow> toStr N x) xs)"
| "toStr N (JObj kvs) = ''[object Object]''"

text \<open>Decimal numerals, for the index keys of arrays and strings.\<close>

fun decimal :: "nat \<Rightarrow> string" where
  "decimal n =
     (if n < 10 then [''0123456789'' ! n]
      else decimal (n div 10) @ [''0123456789'' ! (n mod 10)])"

definition nullEntriesMessage :: string where
  "nullEntriesMessage = ''Cannot convert undefined or null to object''"

text \<open>
  \<open>Object.entries(v)\<close>: a \<open>TypeError\<close> on \<open>undefined\<close> and \<open>null\<close>, the index and
  element pairs of an array or a string, nothing for a boolean or a number.
\<close>

fun objectEntries :: "'n jsval \<Rightarrow> error + (string \<times> 'n jsval) list" where
  "objectEntries JUndefined = Inl (TypeError nullEntriesMessage)"
| "objectEntries JNull = Inl (TypeError nullEntriesMessage)"
| "objectEntries (JBool b) = Inr []"
| "objectEntries (JNum n) = Inr []"
| "objectEntries (JStr s) = Inr (zip (map decimal [0 ..< length s]) (map (\<lambda>c. JStr [c]) s))"
| "objectEntries (JArr xs) = Inr (zip (map decimal [0 ..< length xs]) xs)"
| "objectEntries (JObj kvs) = Inr kvs"

section \<open>toCss\<close>

record 'n StackElement =
  parentSelector :: string
  cssObj :: "'n jsval"

text \<open>
  The body of the \<open>for\<close> loop over \<open>Object.entries(cssObj)\<close>, on the pair of the stack
  and \<open>nestedCss\<close>. \<open>push\<close> appends at the end of a list; the top of the stack is its
  last element.
\<close>

fun forEntries ::
  "'n numops \<Rightarrow> string \<Rightarrow> (string \<times> 'n jsval) list \<Rightarrow>
   'n StackElement list \<times> string list \<Rightarrow> 'n StackElement list \<times> string list" where
  "forEntries N parent [] acc = acc"
| "forEntries N parent ((ident, val) # rest) (stack, nestedCss) =
     (let key = caseConverter ident in
      if typeof val = ''object'' \<and> \<not> isArray val then
        let newSelector =
              (if parent \<noteq> [] then parent @ '' .'' @ caseConverter ident
               else ''.'' @ caseConverter ident)
        in forEntries N parent rest
             (stack @ [\<lparr>parentSelector = newSelector, cssObj = val\<rparr>], nestedCss)
      else
        forEntries N parent rest
          (stack, nestedCss @ [key @ '':'' @ toStr N val @ '';'']))"

text \<open>
  What the \<open>for\<close> loop computes, in closed form: the nested entries are pushed in
  their order, each with its composed selector, and the other entries become the
  declarations in their order.
\<close>

definition isNested :: "'n jsval \<Rightarrow> bool" where
  "isNested v = (typeof v = ''object'' \<and> \<not> isArray v)"

definition childSelector :: "string \<Rightarrow> string \<Rightarrow> string" where
  "childSelector parent ident =
     (if parent \<noteq> [] then parent @ '' .'' @ caseConverter ident
      else ''.'' @ caseConverter ident)"

definition pushed :: "string \<Rightarrow> (string \<times> 'n jsval) list \<Rightarrow> 'n StackElement list" where
  "pushed parent entries =
     map (\<lambda>kv. \<lparr>parentSelector = childSelector parent (fst kv), cssObj = snd kv\<rparr>)
       (filter (\<lambda>kv. isNested (snd kv)) entries)"

definition declarations :: "'n numops \<Rightarrow> (string \<times> 'n jsval) list \<Rightarrow> string list" where
  "declarations N entries =
     map (\<lambda>kv. caseConverter (fst kv) @ '':'' @ toStr N (snd kv) @ '';'')
       (filter (\<lambda>kv. \<not> isNested (snd kv)) entries)"

lemma forEntries_eq:
  "forEntries N parent entries (stack, css) =
     (stack @ pushed parent entries, css @ declarations N entries)"
proof (induction entries arbitrary: stack css)
  case Nil
  show ?case by (simp add: pushed_def declarations_def)
next
  case (Cons kv entries)
  obtain k v where kv: "kv = (k, v)" by (cases kv)
  show ?case
    by (simp add: kv Cons.IH Let_def pushed_def declarations_def isNested_def childSelector_def)
qed

text \<open>
  The measure of the \<open>while\<close> loop: the number of objects and arrays in the values on
  the stack. One iteration pops a value and pushes some of its entries' values.
\<close>

fun weight :: "'n jsval \<Rightarrow> nat" where
  "weight (JObj kvs) = Suc (sum_list (map (\<lambda>kv. weight (snd kv)) kvs))"
| "weight (JArr xs) = Suc (sum_list (map weight xs))"
| "weight _ = 1"

definition stackWeight :: "'n StackElement list \<Rightarrow> nat" where
  "stackWeight stack = sum_list (map (\<lambda>e. weight (cssObj e)) stack)"

lemma stackWeight_append: "stackWeight (xs @ ys) = stackWeight xs + stackWeight ys"
  by (simp add: stackWeight_def)

lemma pushed_weight:
  "stackWeight (pushed parent entries) \<le> sum_list (map (\<lambda>kv. weight (snd kv)) entries)"
  by (induction entries) (auto simp: stackWeight_def pushed_def)

lemma zip_weight:
  "sum_list (map (\<lambda>kv. weight (snd kv)) (zip ks xs)) \<le> sum_list (map weight xs)"
proof (induction xs arbitrary: ks)
  case Nil
  then show ?case by simp
next
  case (Cons x xs)
  show ?case
  proof (cases ks)
    case Nil
    then show ?thesis by simp
  next
    case (Cons k ks')
    with Cons.IH [of ks'] show ?thesis by simp
  qed
qed

lemma pushed_leaves:
  "\<forall>kv \<in> set entries. \<not> isNested (snd kv) \<Longrightarrow> pushed parent entries = []"
  by (simp add: pushed_def)

lemma entries_weight:
  assumes "objectEntries v = Inr entries"
  shows "stackWeight (pushed parent entries) < weight v"
proof (cases v)
  case (JStr s)
  with assms have "\<forall>kv \<in> set entries. \<not> isNested (snd kv)"
    by (auto simp: isNested_def dest!: set_zip_rightD)
  then show ?thesis using JStr by (simp add: pushed_leaves stackWeight_def)
next
  case (JArr xs)
  with assms have e: "entries = zip (map decimal [0 ..< length xs]) xs" by simp
  show ?thesis
    using pushed_weight [of parent entries]
      zip_weight [of "map decimal [0 ..< length xs]" xs] JArr e by simp
next
  case (JObj kvs)
  with assms show ?thesis using pushed_weight [of parent entries] by simp
qed (use assms in \<open>auto simp: pushed_def stackWeight_def\<close>)

lemma stackWeight_butlast:
  "stack \<noteq> [] \<Longrightarrow>
   stackWeight stack = stackWeight (butlast stack) + weight (cssObj (last stack))"
  by (induction stack rule: rev_induct) (auto simp: stackWeight_def)

text \<open>
  The \<open>while (stack.length > 0)\<close> loop on the stack and \<open>lines\<close>. \<open>pop\<close> takes the
  last element. \<open>Object.entries\<close> raises on \<open>null\<close>, which ends the loop with the error.
\<close>

function whileStack ::
  "'n numops \<Rightarrow> 'n StackElement list \<Rightarrow> string list \<Rightarrow> error + string list" where
  "whileStack N stack lines =
     (if length stack > 0 then
        let top = last stack; stack' = butlast stack in
        case objectEntries (cssObj top) of
          Inl e \<Rightarrow> Inl e
        | Inr entries \<Rightarrow>
            let r = forEntries N (parentSelector top) entries (stack', []) in
            whileStack N (fst r)
              (if length (snd r) > 0
               then lines @ [parentSelector top @ ''{'' @ join [] (snd r) @ ''}'']
               else lines)
      else Inr lines)"
  by pat_completeness auto
termination
proof (relation "measure (\<lambda>(N, stack, lines). stackWeight stack)", goal_cases)
  case 1
  show ?case by simp
next
  case (2 N stack lines top stack' entries r)
  then show ?case
    using entries_weight [of "cssObj (last stack)" entries "parentSelector (last stack)"]
      stackWeight_butlast [of stack]
    by (simp add: forEntries_eq stackWeight_append)
qed

definition toCss :: "'n numops \<Rightarrow> 'n jsval \<Rightarrow> error + string" where
  "toCss N obj =
     (if falsy N obj \<or> typeof obj \<noteq> ''object'' \<or> isArray obj then
        Inl (TypeError (''Expected an argument of type object, but got '' @ typeof obj))
      else
        case whileStack N [\<lparr>parentSelector = [], cssObj = obj\<rparr>] [] of
          Inl e \<Rightarrow> Inl e
        | Inr lines \<Rightarrow> Inr (join [] (rev lines)))"

text \<open>
  Integer-valued numbers, for evaluating the functions on concrete inputs: zero is the
  falsy one, and the string of an integer is its decimal numeral.
\<close>

definition intNumbers :: "int numops" where
  "intNumbers =
     \<lparr>numFalsy = (\<lambda>n. n = 0),
      numString = (\<lambda>n. if n < 0 then ''-'' @ decimal (nat (- n)) else decimal (nat n))\<rparr>"

declare whileStack.simps [simp del]

section \<open>The document and injectStyle\<close>

text \<open>
  The document is the tree of its elements; an element is referred to by its path from
  the root (the child indices). \<open>warnings\<close> is what \<open>console.warn\<close> has printed. An
  element's text is a field of its own, and setting \<open>textContent\<close> replaces the
  element's children by that text.
\<close>

datatype element =
  Element (tagName: string) (elemId: string) (elemType: string) (textContent: string)
    (children: "element list")

record dom =
  documentElement :: element
  warnings :: "string list"

text \<open>
  \<open>document.getElementById\<close>: the first element in tree order with the id, as its path
  and the element. \<open>firstById\<close> searches a list of siblings from index \<open>n\<close> on.
\<close>

fun getElementById :: "string \<Rightarrow> element \<Rightarrow> (nat list \<times> element) option"
  and firstById :: "string \<Rightarrow> element list \<Rightarrow> nat \<Rightarrow> (nat list \<times> element) option" where
  "getElementById i (Element t d ty tx cs) =
     (if d = i then Some ([], Element t d ty tx cs) else firstById i cs 0)"
| "firstById i [] n = None"
| "firstById i (c # cs) n =
     (case getElementById i c of
        Some (p, e) \<Rightarrow> Some (n # p, e)
      | None \<Rightarrow> firstById i cs (Suc n))"

text \<open>
  A mutation of the element at a path. A path that leads to no element of the document
  stands for an element outside the document, and the document stays as it is.
\<close>

fun updateAt :: "nat list \<Rightarrow> (element \<Rightarrow> element) \<Rightarrow> element \<Rightarrow> element" where
  "updateAt [] f e = f e"
| "updateAt (n # p) f (Element t d ty tx cs) =
     (if n < length cs then Element t d ty tx (cs[n := updateAt p f (cs ! n)])
      else Element t d ty tx cs)"

definition setTextContent :: "string \<Rightarrow> element \<Rightarrow> element" where
  "setTextContent css e = Element (tagName e) (elemId e) (elemType e) css []"

definition appendChild :: "element \<Rightarrow> element \<Rightarrow> element" where
  "appendChild child e =
     Element (tagName e) (elemId e) (elemType e) (textContent e) (children e @ [child])"

text \<open>\<open>document.head\<close>: the first \<open>head\<close> child of the root element, or \<open>null\<close>.\<close>

definition documentHead :: "element \<Rightarrow> nat list option" where
  "documentHead html =
     (case filter (\<lambda>n. toLowerCase (tagName (children html ! n)) = ''head'')
             [0 ..< length (children html)] of
        [] \<Rightarrow> None
      | n # ns \<Rightarrow> Some [n])"

text \<open>\<open>if (id)\<close>: the id is given and is not the empty string.\<close>

definition truthyId :: "string option \<Rightarrow> bool" where
  "truthyId ident = (case ident of None \<Rightarrow> False | Some i \<Rightarrow> i \<noteq> [])"

text \<open>
  \<open>typeof textOrObject === 'object' ? toCss(textOrObject) : textOrObject\<close>, as the
  string that the assignment to \<open>textContent\<close> stores.
\<close>

definition styleText :: "'n numops \<Rightarrow> 'n jsval \<Rightarrow> error + string" where
  "styleText N textOrObject =
     (if typeof textOrObject = ''object'' then toCss N textOrObject
      else Inr (toStr N textOrObject))"

text \<open>
  The last statements of \<open>injectStyle\<close>: a new \<open>style\<close> element, its type, its text,
  its id, and \<open>hostElement.appendChild(style)\<close>, which raises when the host is \<open>null\<close>.
\<close>

definition createAndAppend ::
  "'n numops \<Rightarrow> 'n jsval \<Rightarrow> string option \<Rightarrow> nat list option \<Rightarrow> dom \<Rightarrow>
   (error + unit) \<times> dom" where
  "createAndAppend N textOrObject ident hostElement d =
     (case styleText N textOrObject of
        Inl e \<Rightarrow> (Inl e, d)
      | Inr css \<Rightarrow>
          let style =
                Element ''STYLE'' (if truthyId ident then the ident else []) ''text/css'' css []
          in case hostElement of
               None \<Rightarrow>
                 (Inl (TypeError ''Cannot read properties of null (reading appendChild)''), d)
             | Some h \<Rightarrow>
                 (Inr (),
                  d\<lparr>documentElement := updateAt h (appendChild style) (documentElement d)\<rparr>))"

text \<open>
  \<open>injectStyle(textOrObject, id, overridable, hostElement)\<close> on the document. An
  argument left out is \<open>None\<close>: \<open>overridable\<close> is then \<open>true\<close> and the host is
  \<open>document.head\<close>. The result is the error raised, if any, and the document after
  the call.
\<close>

definition injectStyle ::
  "'n numops \<Rightarrow> 'n jsval \<Rightarrow> string option \<Rightarrow> bool option \<Rightarrow> nat list option \<Rightarrow>
   dom \<Rightarrow> (error + unit) \<times> dom" where
  "injectStyle N textOrObject ident overridableArg hostArg d =
     (let overridable = (case overridableArg of None \<Rightarrow> True | Some b \<Rightarrow> b);
          hostElement =
            (case hostArg of None \<Rightarrow> documentHead (documentElement d) | Some h \<Rightarrow> Some h)
      in
      if falsy N textOrObject \<or> isArray textOrObject then
        (Inl (Error ''Invalid input: textOrObject cannot be null or an array.''), d)
      else if (case textOrObject of JStr s \<Rightarrow> length s = 0 | _ \<Rightarrow> False) then
        (Inl (Error ''Invalid input: CSS string cannot be empty.''), d)
      else
        case (if truthyId ident then getElementById (the ident) (documentElement d)
              else None) of
          Some (p, oldStyle) \<Rightarrow>
            (let isStyleTag = (toLowerCase (tagName oldStyle) = ''style'') in
             if \<not> isStyleTag then
               (Inl (Error ''The provided id does not indicate a style tag.''), d)
             else if isStyleTag \<and> \<not> overridable then
               (Inr (),
                d\<lparr>warnings := warnings d @
                  [''Style with the same id exists and overridable is set to false. Skipping.'']\<rparr>)
             else
               case styleText N textOrObject of
                 Inl e \<Rightarrow> (Inl e, d)
               | Inr css \<Rightarrow>
                   (Inr (),
                    d\<lparr>documentElement :=
                        updateAt p (setTextContent css) (documentElement d)\<rparr>))
        | None \<Rightarrow> createAndAppend N textOrObject ident hostElement d)"

text \<open>A document with a style element \<open>theme\<close> in its head, for concrete runs.\<close>

definition page :: dom where
  "page =
     \<lparr>documentElement =
        Element ''HTML'' [] [] []
          [Element ''HEAD'' [] [] []
             [Element ''TITLE'' [] [] ''t'' [],
              Element ''STYLE'' ''theme'' ''text/css'' ''p{margin:0;}'' []],
           Element ''BODY'' [] [] [] [Element ''DIV'' ''main'' [] [] []]],
      warnings = []\<rparr>"

section \<open>Flat rules\<close>

text \<open>
  A flat rule is a selector with its declarations; it is written
  \<open>selector{declarations}\<close>. \<open>ownRule\<close> is the rule of a node itself: none when the
  node has no declaration.
\<close>

definition formatRule :: "string \<times> string list \<Rightarrow> string" where
  "formatRule r = fst r @ ''{'' @ join [] (snd r) @ ''}''"

definition ownRule ::
  "'n numops \<Rightarrow> string \<Rightarrow> (string \<times> 'n jsval) list \<Rightarrow> (string \<times> string list) list" where
  "ownRule N sel kvs = (if declarations N kvs \<noteq> [] then [(sel, declarations N kvs)] else [])"

text \<open>
  The recursive flattening in which the rules of a node's nested children, child by
  child in key order, come before the node's own rule.
\<close>

fun flattenPostOrder ::
  "'n numops \<Rightarrow> string \<Rightarrow> 'n jsval \<Rightarrow> (string \<times> string list) list" where
  "flattenPostOrder N sel (JObj kvs) =
     concat (map (\<lambda>kv. if isNested (snd kv)
                        then flattenPostOrder N (childSelector sel (fst kv)) (snd kv)
                        else []) kvs)
     @ ownRule N sel kvs"
| "flattenPostOrder N sel v = []"

text \<open>
  The specification's reference: the straightforward pre-order recursive flattening, the
  node's own rule first and then the rules of its nested children in key order.
\<close>

fun flattenPreOrder ::
  "'n numops \<Rightarrow> string \<Rightarrow> 'n jsval \<Rightarrow> (string \<times> string list) list" where
  "flattenPreOrder N sel (JObj kvs) =
     ownRule N sel kvs @
     concat (map (\<lambda>kv. if isNested (snd kv)
                        then flattenPreOrder N (childSelector sel (fst kv)) (snd kv)
                        else []) kvs)"
| "flattenPreOrder N sel v = []"

text \<open>
  The objects the loop runs through without an error: no value that the loop takes for
  a nested object is \<open>null\<close>, at any depth.
\<close>

fun traversable :: "'n jsval \<Rightarrow> bool" where
  "traversable (JObj kvs) =
     list_all (\<lambda>kv. isNested (snd kv) \<longrightarrow> traversable (snd kv)) kvs"
| "traversable v = False"

text \<open>
  A valid \<open>StyleNode\<close> (the type \<open>CssObject\<close>): every value is a string, a number or a
  valid \<open>StyleNode\<close>.
\<close>

fun isStyleValue :: "'n jsval \<Rightarrow> bool" where
  "isStyleValue (JStr s) = True"
| "isStyleValue (JNum n) = True"
| "isStyleValue v = False"

fun styleNode :: "'n jsval \<Rightarrow> bool" where
  "styleNode (JObj kvs) = list_all (\<lambda>kv. isStyleValue (snd kv) \<or> styleNode (snd kv)) kvs"
| "styleNode v = False"

section \<open>The loop and the recursive flattening\<close>

text \<open>
  The loop is related to the recursive flattening by an invariant on the stack and
  \<open>lines\<close>: what the loop still appends to \<open>lines\<close> is the reversed list of the rules of
  the stack's elements, the bottom of the stack first before the reversal.
\<close>

lemma join_empty: "join [] xs = concat xs"
  by (induction "[] :: string" xs rule: join.induct) auto

lemma styleNode_traversable: "styleNode v \<Longrightarrow> traversable v"
proof (induction v rule: styleNode.induct)
  case (1 kvs)
  have "traversable (snd kv)" if kv: "kv \<in> set kvs" and n: "isNested (snd kv)" for kv
  proof -
    from "1.prems" kv have "isStyleValue (snd kv) \<or> styleNode (snd kv)" by (simp add: list_all_iff)
    moreover from n have "\<not> isStyleValue (snd kv)" by (cases "snd kv") (auto simp: isNested_def)
    ultimately show "traversable (snd kv)" using "1.IH" kv by blast
  qed
  then show ?case by (simp add: list_all_iff)
qed simp_all

lemma concat_pushed:
  "concat (map (\<lambda>e. f (parentSelector e) (cssObj e)) (pushed sel kvs)) =
   concat (map (\<lambda>kv. if isNested (snd kv) then f (childSelector sel (fst kv)) (snd kv) else []) kvs)"
  by (induction kvs) (auto simp: pushed_def)

lemma pushed_traversable:
  "traversable (JObj kvs) \<Longrightarrow> list_all (\<lambda>e. traversable (cssObj e)) (pushed sel kvs)"
  by (auto simp: pushed_def list_all_iff)

lemma whileStack_traversable:
  "list_all (\<lambda>e. traversable (cssObj e)) stack \<Longrightarrow>
   whileStack N stack lines =
     Inr (lines @ rev (map formatRule
            (concat (map (\<lambda>e. flattenPostOrder N (parentSelector e) (cssObj e)) stack))))"
proof (induction N stack lines rule: whileStack.induct)
  case (1 N stack lines)
  show ?case
  proof (cases "stack = []")
    case True
    then show ?thesis by (simp add: whileStack.simps)
  next
    case False
    then obtain st top where stack: "stack = st @ [top]"
      by (cases stack rule: rev_cases) auto
    from "1.prems" stack have top: "traversable (cssObj top)"
      and st: "list_all (\<lambda>e. traversable (cssObj e)) st" by simp_all
    from top obtain kvs where obj: "cssObj top = JObj kvs" by (cases "cssObj top") auto
    let ?sel = "parentSelector top"
    let ?F = "\<lambda>e. flattenPostOrder N (parentSelector e) (cssObj e)"
    let ?own = "map formatRule (ownRule N ?sel kvs)"
    have step: "whileStack N stack lines = whileStack N (st @ pushed ?sel kvs) (lines @ ?own)"
      by (subst whileStack.simps)
         (simp add: stack obj Let_def forEntries_eq ownRule_def formatRule_def)
    have kids: "list_all (\<lambda>e. traversable (cssObj e)) (st @ pushed ?sel kvs)"
      using st top obj pushed_traversable [of kvs ?sel] by simp
    have r: "forEntries N ?sel kvs (st, []) = (st @ pushed ?sel kvs, declarations N kvs)"
      by (simp add: forEntries_eq)
    have own: "(if 0 < length (declarations N kvs)
                then lines @ [?sel @ ''{'' @ join [] (declarations N kvs) @ ''}'']
                else lines) = lines @ ?own"
      by (simp add: ownRule_def formatRule_def)
    have pre: "0 < length stack" "top = last stack" "st = butlast stack"
      "objectEntries (cssObj top) = Inr kvs"
      by (simp_all add: stack obj)
    note ih = "1.IH" [OF pre r [symmetric], unfolded r fst_conv snd_conv own, OF kids]
    have IH: "whileStack N (st @ pushed ?sel kvs) (lines @ ?own) =
        Inr ((lines @ ?own) @ rev (map formatRule (concat (map ?F (st @ pushed ?sel kvs)))))"
      by (rule ih)
    have "rev ?own = ?own" by (simp add: ownRule_def)
    then have "rev (map formatRule (?F top)) =
        ?own @ rev (map formatRule (concat (map ?F (pushed ?sel kvs))))"
      by (simp add: obj concat_pushed rev_map)
    then show ?thesis
      unfolding step IH by (simp add: stack)
  qed
qed

text \<open>
  The loop only ever holds values it took for nested objects, which are objects or
  \<open>null\<close>. When one of them is not traversable, a \<open>null\<close> is popped sooner or later and
  \<open>Object.entries\<close> raises.
\<close>

lemma pushed_nested: "list_all (\<lambda>e. isNested (cssObj e)) (pushed sel kvs)"
  by (simp add: pushed_def list_all_iff)

lemma pushed_not_traversable:
  "\<not> traversable (JObj kvs) \<Longrightarrow> \<not> list_all (\<lambda>e. traversable (cssObj e)) (pushed sel kvs)"
  by (fastforce simp: pushed_def list_all_iff)

lemma nested_cases: "isNested v \<Longrightarrow> v = JNull \<or> (\<exists>kvs. v = JObj kvs)"
  by (cases v) (auto simp: isNested_def)

lemma whileStack_null:
  "list_all (\<lambda>e. isNested (cssObj e)) stack \<Longrightarrow>
   \<not> list_all (\<lambda>e. traversable (cssObj e)) stack \<Longrightarrow>
   whileStack N stack lines = Inl (TypeError nullEntriesMessage)"
proof (induction N stack lines rule: whileStack.induct)
  case (1 N stack lines)
  from "1.prems"(2) have "stack \<noteq> []" by auto
  then obtain st top where stack: "stack = st @ [top]"
    by (cases stack rule: rev_cases) auto
  from "1.prems"(1) stack have nst: "list_all (\<lambda>e. isNested (cssObj e)) st"
    and ntop: "isNested (cssObj top)" by simp_all
  from nested_cases [OF ntop] show ?case
  proof (elim disjE exE)
    assume "cssObj top = JNull"
    then show ?thesis by (subst whileStack.simps) (simp add: stack)
  next
    fix kvs assume obj: "cssObj top = JObj kvs"
    let ?sel = "parentSelector top"
    have r: "forEntries N ?sel kvs (st, []) = (st @ pushed ?sel kvs, declarations N kvs)"
      by (simp add: forEntries_eq)
    have pre: "0 < length stack" "top = last stack" "st = butlast stack"
      "objectEntries (cssObj top) = Inr kvs"
      by (simp_all add: stack obj)
    have n': "list_all (\<lambda>e. isNested (cssObj e)) (st @ pushed ?sel kvs)"
      using nst pushed_nested [of ?sel kvs] by simp
    have t': "\<not> list_all (\<lambda>e. traversable (cssObj e)) (st @ pushed ?sel kvs)"
      using "1.prems"(2) pushed_not_traversable [of kvs ?sel] by (auto simp: stack obj)
    note ih = "1.IH" [OF pre r [symmetric], unfolded r fst_conv snd_conv, OF n' t']
    show ?thesis
    proof (cases "declarations N kvs = []")
      case True
      with ih have "whileStack N (st @ pushed ?sel kvs) lines = Inl (TypeError nullEntriesMessage)"
        by simp
      then show ?thesis
        by (subst whileStack.simps) (simp add: stack obj Let_def r True)
    next
      case False
      with ih have "whileStack N (st @ pushed ?sel kvs)
          (lines @ [?sel @ ''{'' @ join [] (declarations N kvs) @ ''}'']) =
          Inl (TypeError nullEntriesMessage)"
        by simp
      then show ?thesis
        by (subst whileStack.simps) (simp add: stack obj Let_def r False)
    qed
  qed
qed

text \<open>\<open>toCss\<close> on an object, and on every other value.\<close>

lemma toCss_traversable:
  "traversable v \<Longrightarrow> toCss N v = Inr (concat (map formatRule (flattenPostOrder N [] v)))"
proof -
  assume t: "traversable v"
  then obtain kvs where v: "v = JObj kvs" by (cases v) auto
  have "whileStack N [\<lparr>parentSelector = [], cssObj = v\<rparr>] [] =
        Inr (rev (map formatRule (flattenPostOrder N [] v)))"
    using whileStack_traversable [of "[\<lparr>parentSelector = [], cssObj = v\<rparr>]" N "[]"] t by simp
  then show ?thesis by (simp add: toCss_def v join_empty)
qed

lemma toCss_object:
  "toCss N (JObj kvs) =
     (if traversable (JObj kvs)
      then Inr (concat (map formatRule (flattenPostOrder N [] (JObj kvs))))
      else Inl (TypeError nullEntriesMessage))"
proof (cases "traversable (JObj kvs)")
  case True
  then show ?thesis by (simp add: toCss_traversable del: traversable.simps flattenPostOrder.simps)
next
  case False
  have "whileStack N [\<lparr>parentSelector = [], cssObj = JObj kvs\<rparr>] [] = Inl (TypeError nullEntriesMessage)"
    using False by (intro whileStack_null) (simp_all add: isNested_def)
  with False show ?thesis by (simp add: toCss_def)
qed

lemma toCss_not_object:
  "(\<And>kvs. v \<noteq> JObj kvs) \<Longrightarrow>
   toCss N v = Inl (TypeError (''Expected an argument of type object, but got '' @ typeof v))"
  by (cases v) (auto simp: toCss_def)

lemma rules_nonempty: "\<forall>r \<in> set (flattenPostOrder N sel v). snd r \<noteq> []"
proof (induction N sel v rule: flattenPostOrder.induct)
  case (1 N sel kvs)
  have "snd r \<noteq> []" if "r \<in> set (flattenPostOrder N sel (JObj kvs))" for r
  proof -
    from that consider
      (child) kv where "kv \<in> set kvs" "isNested (snd kv)"
        "r \<in> set (flattenPostOrder N (childSelector sel (fst kv)) (snd kv))"
      | (own) "r \<in> set (ownRule N sel kvs)"
      by (auto split: if_splits)
    then show ?thesis
    proof cases
      case child
      then show ?thesis using "1.IH" [of kv] by blast
    next
      case own
      then show ?thesis by (auto simp: ownRule_def split: if_splits)
    qed
  qed
  then show ?case by blast
qed simp_all

lemma concat_concat_map: "concat (concat (map f xs)) = concat (map (\<lambda>x. concat (f x)) xs)"
  by (induction xs) simp_all

lemma declarations_nested:
  "list_all (\<lambda>kv. isNested (snd kv)) kvs \<Longrightarrow> declarations N kvs = []"
  by (simp add: declarations_def list_all_iff)

lemma traversable_nested: "traversable v \<Longrightarrow> isNested v"
  by (cases v) (auto simp: isNested_def)

section \<open>The claims\<close>

subsection \<open>C1: the order of the rules\<close>

text \<open>
  Claim C1 says that the output of \<open>toCss\<close> is that of the pre-order recursive
  flattening, each parent's rule before the rules of its nested children. On the valid
  \<open>StyleNode\<close> \<open>{color: "red", a: {color: "blue"}}\<close> the loop collects the root's
  rule and then the rule of \<open>.a\<close>, and the final reversal puts the rule of \<open>.a\<close>
  first: the output differs from the pre-order text.
\<close>

theorem toCss_preorder_counterexample:
  "styleNode (JObj [(''color'', JStr ''red''), (''a'', JObj [(''color'', JStr ''blue'')])] :: int jsval)
   \<and> toCss intNumbers (JObj [(''color'', JStr ''red''), (''a'', JObj [(''color'', JStr ''blue'')])])
       = Inr ''.a{color:blue;}{color:red;}''
   \<and> concat (map formatRule (flattenPreOrder intNumbers []
         (JObj [(''color'', JStr ''red''), (''a'', JObj [(''color'', JStr ''blue'')])])))
       = ''{color:red;}.a{color:blue;}''
   \<and> toCss intNumbers (JObj [(''color'', JStr ''red''), (''a'', JObj [(''color'', JStr ''blue'')])])
       \<noteq> Inr (concat (map formatRule (flattenPreOrder intNumbers []
           (JObj [(''color'', JStr ''red''), (''a'', JObj [(''color'', JStr ''blue'')])]))))"
  by code_simp

text \<open>
  Claim C1, as amended: for every valid \<open>StyleNode\<close>, the string returned by \<open>toCss\<close>
  equals what the post-order recursive flattening produces. The rules of a node's nested
  children come first, child by child in the original key order, and the node's own
  rule comes after them; the explicit stack with the final reversal changes no byte of
  that text.
\<close>

theorem toCss_postorder:
  "styleNode v \<Longrightarrow> toCss N v = Inr (concat (map formatRule (flattenPostOrder N [] v)))"
  by (rule toCss_traversable [OF styleNode_traversable])

theorem toCss_postorder_witness:
  "styleNode (JObj [(''a'', JObj [(''color'', JStr ''red''), (''b'', JObj [(''top'', JNum 0)]),
                                  (''c'', JObj [(''top'', JNum 1)])])] :: int jsval)
   \<and> toCss intNumbers (JObj [(''a'', JObj [(''color'', JStr ''red''), (''b'', JObj [(''top'', JNum 0)]),
                                  (''c'', JObj [(''top'', JNum 1)])])])
       = Inr ''.a .b{top:0;}.a .c{top:1;}.a{color:red;}''"
proof -
  let ?x = "JObj [(''a'', JObj [(''color'', JStr ''red''), (''b'', JObj [(''top'', JNum 0)]),
                                  (''c'', JObj [(''top'', JNum 1)])])] :: int jsval"
  have h: "styleNode ?x" by code_simp
  have v: "concat (map formatRule (flattenPostOrder intNumbers [] ?x))
             = ''.a .b{top:0;}.a .c{top:1;}.a{color:red;}''" by code_simp
  show ?thesis using h toCss_postorder [OF h, of intNumbers] unfolding v by blast
qed

subsection \<open>C2: the type check of toCss\<close>

text \<open>
  Claim C2: on \<open>null\<close>, an array or a value that is not an object (a string, a number, a
  boolean, \<open>undefined\<close>), \<open>toCss\<close> raises the \<open>TypeError\<close> whose message ends with the
  \<open>typeof\<close> of the value received (which is \<open>object\<close> for \<open>null\<close> and for an array);
  the loop is not entered. On an object that is neither \<open>null\<close> nor an array it never
  raises an error with that message.
\<close>

theorem toCss_type_check:
  "(v = JNull \<or> isArray v \<or> typeof v \<noteq> ''object'' \<longrightarrow>
      toCss N v = Inl (TypeError (''Expected an argument of type object, but got '' @ typeof v)))
   \<and> (v \<noteq> JNull \<and> \<not> isArray v \<and> typeof v = ''object'' \<longrightarrow>
      (\<forall>t. toCss N v \<noteq> Inl (TypeError (''Expected an argument of type object, but got '' @ t))))"
proof (cases v)
  case (JObj kvs)
  then show ?thesis
    by (simp add: toCss_object nullEntriesMessage_def del: traversable.simps flattenPostOrder.simps)
qed (simp_all add: toCss_not_object)

theorem toCss_type_check_witness:
  "toCss intNumbers JNull = Inl (TypeError ''Expected an argument of type object, but got object'')
   \<and> toCss intNumbers (JArr [JNum 1]) = Inl (TypeError ''Expected an argument of type object, but got object'')
   \<and> toCss intNumbers (JStr ''a'') = Inl (TypeError ''Expected an argument of type object, but got string'')
   \<and> toCss intNumbers (JNum 7) = Inl (TypeError ''Expected an argument of type object, but got number'')
   \<and> toCss intNumbers (JBool True) = Inl (TypeError ''Expected an argument of type object, but got boolean'')
   \<and> toCss intNumbers JUndefined = Inl (TypeError ''Expected an argument of type object, but got undefined'')
   \<and> toCss intNumbers (JObj [(''a'', JNull)]) \<noteq> Inl (TypeError ''Expected an argument of type object, but got object'')"
  using toCss_type_check [of JNull intNumbers] toCss_type_check [of "JArr [JNum 1]" intNumbers]
    toCss_type_check [of "JStr ''a''" intNumbers] toCss_type_check [of "JNum 7" intNumbers]
    toCss_type_check [of "JBool True" intNumbers] toCss_type_check [of JUndefined intNumbers]
    toCss_type_check [of "JObj [(''a'', JNull)]" intNumbers]
  by simp

subsection \<open>C3: caseConverter\<close>

text \<open>
  The four equations of claim C3 hold.
\<close>

lemma caseConverter_examples:
  "caseConverter [] = []"
  "caseConverter ''backgroundColor'' = ''background-color''"
  "caseConverter ''borderTopWidth'' = ''border-top-width''"
  "caseConverter ''Hover'' = ''-hover''"
  by code_simp+

text \<open>
  Claim C3 also says that the leading \<open>-\<close> is prepended exactly when the first
  character was upper-case. The test in the code is \<open>str[0] === str[0].toUpperCase()\<close>,
  which also holds of a first character that has no case: \<open>0\<close> is not an upper-case
  letter, and \<open>caseConverter\<close> turns \<open>0pad\<close> into \<open>-0pad\<close>.
\<close>

theorem caseConverter_caseless_first:
  "\<not> isUpperAZ (CHR ''0'') \<and> caseConverter ''0pad'' = ''-0pad''"
  by code_simp

subsection \<open>C4: nested selectors, and no empty rule\<close>

text \<open>
  Claim C4: \<open>{card: {title: {color: "red"}}}\<close> gives \<open>.card .title{color:red;}\<close>,
  with the one rule of \<open>.card .title\<close> and none of \<open>.card\<close>. The selector pushed for a
  nested entry is the parent, one space, a dot and the converted key when the parent
  selector is not empty, and the dot and the converted key when it is. Whenever \<open>toCss\<close>
  returns, its text is made of the rules of the flattening, and each of them has at
  least one declaration.
\<close>

theorem nested_selector_rules:
  "toCss N (JObj [(''card'', JObj [(''title'', JObj [(''color'', JStr ''red'')])])])
     = Inr ''.card .title{color:red;}''
   \<and> flattenPostOrder N [] (JObj [(''card'', JObj [(''title'', JObj [(''color'', JStr ''red'')])])])
     = [(''.card .title'', [''color:red;''])]
   \<and> map parentSelector (fst (forEntries N parent entries ([], []))) =
       map (\<lambda>kv. if parent = [] then ''.'' @ caseConverter (fst kv)
                  else parent @ '' .'' @ caseConverter (fst kv))
         (filter (\<lambda>kv. isNested (snd kv)) entries)
   \<and> (toCss N v = Inr css \<longrightarrow>
        css = concat (map formatRule (flattenPostOrder N [] v))
        \<and> (\<forall>r \<in> set (flattenPostOrder N [] v). snd r \<noteq> []))"
proof (intro conjI impI)
  show "toCss N (JObj [(''card'', JObj [(''title'', JObj [(''color'', JStr ''red'')])])])
     = Inr ''.card .title{color:red;}''"
    by code_simp
  show "flattenPostOrder N [] (JObj [(''card'', JObj [(''title'', JObj [(''color'', JStr ''red'')])])])
     = [(''.card .title'', [''color:red;''])]"
    by code_simp
  show "map parentSelector (fst (forEntries N parent entries ([], []))) =
       map (\<lambda>kv. if parent = [] then ''.'' @ caseConverter (fst kv)
                  else parent @ '' .'' @ caseConverter (fst kv))
         (filter (\<lambda>kv. isNested (snd kv)) entries)"
    by (simp add: forEntries_eq pushed_def childSelector_def comp_def)
next
  assume a: "toCss N v = Inr css"
  show "css = concat (map formatRule (flattenPostOrder N [] v))"
  proof (cases v)
    case (JObj kvs)
    with a show ?thesis
      by (simp add: toCss_object del: traversable.simps flattenPostOrder.simps split: if_splits)
  qed (use a in \<open>simp_all add: toCss_not_object\<close>)
  show "\<forall>r \<in> set (flattenPostOrder N [] v). snd r \<noteq> []"
    by (rule rules_nonempty)
qed

theorem nested_selector_rules_witness:
  "map parentSelector (fst (forEntries intNumbers ''.card''
       [(''color'', JStr ''red''), (''title'', JObj []), (''SubTitle'', JObj [])] ([], [])))
     = [''.card .title'', ''.card .-sub-title'']
   \<and> toCss intNumbers (JObj [(''card'', JObj [(''title'', JObj [(''color'', JStr ''red'')])])])
     = Inr (concat (map formatRule [(''.card .title'', [''color:red;''])]))"
proof -
  let ?v = "JObj [(''card'', JObj [(''title'', JObj [(''color'', JStr ''red'')])])] :: int jsval"
  let ?es = "[(''color'', JStr ''red''), (''title'', JObj []), (''SubTitle'', JObj [])] :: (string \<times> int jsval) list"
  note T = nested_selector_rules [of intNumbers "''.card''" ?es ?v "''.card .title{color:red;}''"]
  have 1: "map (\<lambda>kv. if ''.card'' = [] then ''.'' @ caseConverter (fst kv)
                  else ''.card'' @ '' .'' @ caseConverter (fst kv))
         (filter (\<lambda>kv. isNested (snd kv)) ?es) = [''.card .title'', ''.card .-sub-title'']"
    by code_simp
  have 2: "toCss intNumbers ?v = Inr ''.card .title{color:red;}''" using T by blast
  have 3: "concat (map formatRule [(''.card .title'', [''color:red;''])]) = ''.card .title{color:red;}''"
    by code_simp
  from T have "map parentSelector (fst (forEntries intNumbers ''.card'' ?es ([], []))) =
     map (\<lambda>kv. if ''.card'' = [] then ''.'' @ caseConverter (fst kv)
                  else ''.card'' @ '' .'' @ caseConverter (fst kv))
         (filter (\<lambda>kv. isNested (snd kv)) ?es)" by blast
  with 1 2 3 show ?thesis by simp
qed

subsection \<open>C5: siblings keep their order\<close>

text \<open>
  Claim C5: \<open>{a: {color: "red"}, b: {color: "blue"}}\<close> gives
  \<open>.a{color:red;}.b{color:blue;}\<close>. In general, when every entry of the root is a nested
  node, the output is the text of the first entry's subtree, then that of the second,
  and so on in the key order of the root, although the stack is last in, first out.
\<close>

theorem siblings_in_key_order:
  "toCss N (JObj [(''a'', JObj [(''color'', JStr ''red'')]),
                  (''b'', JObj [(''color'', JStr ''blue'')])]) = Inr ''.a{color:red;}.b{color:blue;}''
   \<and> (list_all (\<lambda>kv. traversable (snd kv)) kvs \<longrightarrow>
        toCss N (JObj kvs) =
          Inr (concat (map (\<lambda>kv. concat (map formatRule
                 (flattenPostOrder N (''.'' @ caseConverter (fst kv)) (snd kv)))) kvs)))"
proof
  show "toCss N (JObj [(''a'', JObj [(''color'', JStr ''red'')]),
                  (''b'', JObj [(''color'', JStr ''blue'')])]) = Inr ''.a{color:red;}.b{color:blue;}''"
    by code_simp
next
  show "list_all (\<lambda>kv. traversable (snd kv)) kvs \<longrightarrow>
        toCss N (JObj kvs) =
          Inr (concat (map (\<lambda>kv. concat (map formatRule
                 (flattenPostOrder N (''.'' @ caseConverter (fst kv)) (snd kv)))) kvs))"
  proof
    assume a: "list_all (\<lambda>kv. traversable (snd kv)) kvs"
    then have n: "list_all (\<lambda>kv. isNested (snd kv)) kvs"
      by (auto simp: list_all_iff traversable_nested)
    from a have t: "traversable (JObj kvs)" by (simp add: list_all_iff)
    have "flattenPostOrder N [] (JObj kvs) =
       concat (map (\<lambda>kv. flattenPostOrder N (''.'' @ caseConverter (fst kv)) (snd kv)) kvs)"
      using n by (simp add: ownRule_def declarations_nested childSelector_def list_all_iff cong: map_cong)
    then show "toCss N (JObj kvs) =
          Inr (concat (map (\<lambda>kv. concat (map formatRule
                 (flattenPostOrder N (''.'' @ caseConverter (fst kv)) (snd kv)))) kvs))"
      using t by (simp add: toCss_object map_concat comp_def concat_concat_map
            del: traversable.simps flattenPostOrder.simps)
  qed
qed

theorem siblings_in_key_order_witness:
  "list_all (\<lambda>kv. traversable (snd kv))
     ([(''z'', JObj [(''top'', JNum 1)]), (''a'', JObj [(''top'', JNum 2)]),
       (''m'', JObj [(''top'', JNum 3)])] :: (string \<times> int jsval) list)
   \<and> toCss intNumbers (JObj [(''z'', JObj [(''top'', JNum 1)]), (''a'', JObj [(''top'', JNum 2)]),
        (''m'', JObj [(''top'', JNum 3)])]) = Inr ''.z{top:1;}.a{top:2;}.m{top:3;}''"
proof -
  let ?kvs = "[(''z'', JObj [(''top'', JNum 1)]), (''a'', JObj [(''top'', JNum 2)]),
        (''m'', JObj [(''top'', JNum 3)])] :: (string \<times> int jsval) list"
  have h: "list_all (\<lambda>kv. traversable (snd kv)) ?kvs" by code_simp
  have v: "concat (map (\<lambda>kv. concat (map formatRule
                 (flattenPostOrder intNumbers (''.'' @ caseConverter (fst kv)) (snd kv)))) ?kvs)
           = ''.z{top:1;}.a{top:2;}.m{top:3;}''" by code_simp
  from siblings_in_key_order [of intNumbers ?kvs] h
  have "toCss intNumbers (JObj ?kvs) =
          Inr (concat (map (\<lambda>kv. concat (map formatRule
                 (flattenPostOrder intNumbers (''.'' @ caseConverter (fst kv)) (snd kv)))) ?kvs))"
    by blast
  with h show ?thesis unfolding v by blast
qed

subsection \<open>C6: declarations of the root\<close>

text \<open>
  Claim C6: \<open>{color: "red"}\<close> gives \<open>{color:red;}\<close>. In general a root that has entries,
  none of them nested, gives one rule block whose selector is the empty string and
  whose declarations are those of the entries in their order.
\<close>

theorem root_declarations:
  "toCss N (JObj [(''color'', JStr ''red'')]) = Inr ''{color:red;}''
   \<and> (kvs \<noteq> [] \<and> list_all (\<lambda>kv. \<not> isNested (snd kv)) kvs \<longrightarrow>
        toCss N (JObj kvs) =
          Inr (''{'' @ concat (map (\<lambda>kv. caseConverter (fst kv) @ '':'' @ toStr N (snd kv) @ '';'') kvs)
               @ ''}''))"
proof (intro conjI impI)
  show "toCss N (JObj [(''color'', JStr ''red'')]) = Inr ''{color:red;}''" by code_simp
next
  assume a: "kvs \<noteq> [] \<and> list_all (\<lambda>kv. \<not> isNested (snd kv)) kvs"
  then have leaves: "\<forall>kv \<in> set kvs. \<not> isNested (snd kv)" by (simp add: list_all_iff)
  then have t: "traversable (JObj kvs)" by (simp add: list_all_iff)
  from leaves have d: "declarations N kvs =
      map (\<lambda>kv. caseConverter (fst kv) @ '':'' @ toStr N (snd kv) @ '';'') kvs"
    by (simp add: declarations_def)
  from leaves have f: "flattenPostOrder N [] (JObj kvs) = ownRule N [] kvs"
    by (simp cong: map_cong)
  from a d have ne: "declarations N kvs \<noteq> []" by simp
  show "toCss N (JObj kvs) =
          Inr (''{'' @ concat (map (\<lambda>kv. caseConverter (fst kv) @ '':'' @ toStr N (snd kv) @ '';'') kvs)
               @ ''}'')"
    unfolding toCss_traversable [OF t] f using ne
    by (simp add: ownRule_def formatRule_def join_empty d)
qed

theorem root_declarations_witness:
  "[(''color'', JStr ''red''), (''marginTop'', JNum (4 :: int))] \<noteq> []
   \<and> list_all (\<lambda>kv. \<not> isNested (snd kv)) [(''color'', JStr ''red''), (''marginTop'', JNum (4 :: int))]
   \<and> toCss intNumbers (JObj [(''color'', JStr ''red''), (''marginTop'', JNum 4)])
       = Inr ''{color:red;margin-top:4;}''"
proof -
  let ?kvs = "[(''color'', JStr ''red''), (''marginTop'', JNum 4)] :: (string \<times> int jsval) list"
  have h: "?kvs \<noteq> [] \<and> list_all (\<lambda>kv. \<not> isNested (snd kv)) ?kvs" by code_simp
  have v: "''{'' @ concat (map (\<lambda>kv. caseConverter (fst kv) @ '':'' @ toStr intNumbers (snd kv) @ '';'') ?kvs)
               @ ''}'' = ''{color:red;margin-top:4;}''" by code_simp
  from root_declarations [of intNumbers ?kvs] h
  have "toCss intNumbers (JObj ?kvs) =
     Inr (''{'' @ concat (map (\<lambda>kv. caseConverter (fst kv) @ '':'' @ toStr intNumbers (snd kv) @ '';'') ?kvs)
               @ ''}'')" by blast
  with h show ?thesis unfolding v by blast
qed

subsection \<open>C7: a null value\<close>

text \<open>
  Claim C7 says that no input that passes the type check makes the loop raise. The
  object \<open>{k: null}\<close> passes the check; its value has \<open>typeof\<close> \<open>object\<close> and is no
  array, so the loop pushes it as a nested object, and \<open>Object.entries(null)\<close> raises a
  \<open>TypeError\<close> when it is popped.
\<close>

theorem toCss_null_value:
  "\<not> (falsy N (JObj [(k, JNull)]) \<or> typeof (JObj [(k, JNull)] :: 'n jsval) \<noteq> ''object''
       \<or> isArray (JObj [(k, JNull)] :: 'n jsval))
   \<and> toCss N (JObj [(k, JNull)]) = Inl (TypeError ''Cannot convert undefined or null to object'')"
  by (simp add: toCss_object isNested_def nullEntriesMessage_def)

theorem toCss_null_value_witness:
  "toCss intNumbers (JObj [(''a'', JNull)]) = Inl (TypeError ''Cannot convert undefined or null to object'')"
  using toCss_null_value [of intNumbers "''a''"] by blast

subsection \<open>C8: injectStyle rejects an invalid content\<close>

text \<open>
  Claim C8: when the content is \<open>null\<close>, absent, an array or the empty string,
  \<open>injectStyle\<close> raises its invalid-input \<open>Error\<close> and the document is the one before
  the call. (The empty string is falsy, so it is the first of the two checks that
  rejects it.)
\<close>

theorem injectStyle_invalid_input:
  "textOrObject = JNull \<or> textOrObject = JUndefined \<or> isArray textOrObject \<or> textOrObject = JStr []
   \<Longrightarrow> injectStyle N textOrObject ident overridable host d =
     (Inl (Error ''Invalid input: textOrObject cannot be null or an array.''), d)"
  by (auto simp: injectStyle_def Let_def)

theorem injectStyle_invalid_input_witness:
  "injectStyle intNumbers JNull (Some ''theme'') None None page =
     (Inl (Error ''Invalid input: textOrObject cannot be null or an array.''), page)
   \<and> injectStyle intNumbers JUndefined None None None page =
     (Inl (Error ''Invalid input: textOrObject cannot be null or an array.''), page)
   \<and> injectStyle intNumbers (JArr [JStr ''a{}'']) (Some ''theme'') (Some True) (Some [1]) page =
     (Inl (Error ''Invalid input: textOrObject cannot be null or an array.''), page)
   \<and> injectStyle intNumbers (JStr []) None (Some True) None page =
     (Inl (Error ''Invalid input: textOrObject cannot be null or an array.''), page)"
  using injectStyle_invalid_input [of JNull intNumbers "Some ''theme''" None None page]
    injectStyle_invalid_input [of JUndefined intNumbers None None None page]
    injectStyle_invalid_input [of "JArr [JStr ''a{}'']" intNumbers "Some ''theme''" "Some True" "Some [1]" page]
    injectStyle_invalid_input [of "JStr []" intNumbers None "Some True" None page]
  by simp

subsection \<open>C9: an existing style element that may not be overridden\<close>

text \<open>
  Claim C9: the id is given and is the id of an existing element whose tag is \<open>style\<close>,
  and \<open>overridable\<close> is false. A call whose content passes the check of the content
  (it is truthy and no array; a content that does not is the case of C8) prints the
  warning and returns without an error, with the document as it was before the call.
  Whatever the content is, the tree of the document, the text of the existing element
  included, is the one before the call.
\<close>

theorem injectStyle_skip:
  assumes "i \<noteq> []" and "getElementById i (documentElement d) = Some (p, oldStyle)"
    and "toLowerCase (tagName oldStyle) = ''style''"
  shows "(\<not> falsy N textOrObject \<and> \<not> isArray textOrObject \<longrightarrow>
            injectStyle N textOrObject (Some i) (Some False) host d =
              (Inr (), d\<lparr>warnings := warnings d @
                 [''Style with the same id exists and overridable is set to false. Skipping.'']\<rparr>))
         \<and> documentElement (snd (injectStyle N textOrObject (Some i) (Some False) host d))
             = documentElement d"
proof -
  have skip: "injectStyle N textOrObject (Some i) (Some False) host d =
       (Inr (), d\<lparr>warnings := warnings d @
          [''Style with the same id exists and overridable is set to false. Skipping.'']\<rparr>)"
    if ok: "\<not> falsy N textOrObject" "\<not> isArray textOrObject"
  proof -
    have "\<not> (case textOrObject of JStr s \<Rightarrow> length s = 0 | _ \<Rightarrow> False)"
      using ok(1) by (cases textOrObject) auto
    then show ?thesis using ok assms by (simp add: injectStyle_def Let_def truthyId_def)
  qed
  have frame: "documentElement (snd (injectStyle N textOrObject (Some i) (Some False) host d))
             = documentElement d"
  proof (cases "falsy N textOrObject \<or> isArray textOrObject")
    case True
    then show ?thesis by (simp add: injectStyle_def Let_def)
  next
    case False
    then show ?thesis using skip by simp
  qed
  from skip frame show ?thesis by blast
qed

theorem injectStyle_skip_witness:
  "injectStyle intNumbers (JObj [(''a'', JObj [(''color'', JStr ''red'')])]) (Some ''theme'') (Some False)
     None page =
     (Inr (), page\<lparr>warnings :=
        [''Style with the same id exists and overridable is set to false. Skipping.'']\<rparr>)
   \<and> injectStyle intNumbers (JStr ''p{margin:1px;}'') (Some ''theme'') (Some False) (Some [1]) page =
     (Inr (), page\<lparr>warnings :=
        [''Style with the same id exists and overridable is set to false. Skipping.'']\<rparr>)
   \<and> documentElement (snd (injectStyle intNumbers (JStr ''p{margin:1px;}'') (Some ''theme'')
         (Some False) (Some [1]) page)) = documentElement page
   \<and> documentElement (snd (injectStyle intNumbers (JArr []) (Some ''theme'')
         (Some False) None page)) = documentElement page"
proof -
  have g: "getElementById ''theme'' (documentElement page) =
     Some ([0, 1], Element ''STYLE'' ''theme'' ''text/css'' ''p{margin:0;}'' [])"
    by (simp add: page_def)
  have t: "toLowerCase (tagName (Element ''STYLE'' ''theme'' ''text/css'' ''p{margin:0;}'' [])) = ''style''"
    by code_simp
  have w: "warnings page = []" by (simp add: page_def)
  have n: "''theme'' \<noteq> []" by simp
  have ok: "\<not> falsy intNumbers (JObj [(''a'', JObj [(''color'', JStr ''red'')])])
      \<and> \<not> isArray (JObj [(''a'', JObj [(''color'', JStr ''red'')])] :: int jsval)"
    "\<not> falsy intNumbers (JStr ''p{margin:1px;}'') \<and> \<not> isArray (JStr ''p{margin:1px;}'' :: int jsval)"
    by simp_all
  show ?thesis
    using injectStyle_skip [OF n g t, of intNumbers "JObj [(''a'', JObj [(''color'', JStr ''red'')])]" None]
      injectStyle_skip [OF n g t, of intNumbers "JStr ''p{margin:1px;}''" "Some [1]"]
      injectStyle_skip [OF n g t, of intNumbers "JArr []" None] ok
    by (simp add: w)
qed

subsection \<open>C10: a first character without case\<close>

text \<open>
  Claim C10: whenever upper-casing leaves the first character of an identifier as it
  is (a digit, a punctuation character, an upper-case letter), \<open>caseConverter\<close> prepends
  \<open>-\<close>, and the prefix shows in the output of \<open>toCss\<close>, in the declaration of a leaf key
  and in the selector of a nested key.
\<close>

theorem caseConverter_caseless_prefix:
  "toUpperChar c = c \<longrightarrow>
     caseConverter (c # cs) = ''-'' @ toLowerCase (join ''-'' (splitBeforeUpper (c # cs)))
     \<and> toCss N (JObj [(c # cs, JStr s)]) =
         Inr (''{-'' @ toLowerCase (join ''-'' (splitBeforeUpper (c # cs))) @ '':'' @ s @ '';}'')
     \<and> toCss N (JObj [(c # cs, JObj [(''color'', JStr s)])]) =
         Inr (''.-'' @ toLowerCase (join ''-'' (splitBeforeUpper (c # cs))) @ ''{color:'' @ s @ '';}'')"
proof
  assume u: "toUpperChar c = c"
  have cc: "caseConverter (c # cs) = ''-'' @ toLowerCase (join ''-'' (splitBeforeUpper (c # cs)))"
    using u by (simp add: caseConverter_def toUpperCase_def Let_def)
  have col: "caseConverter ''color'' = ''color''" by code_simp
  have leaf: "toCss N (JObj [(c # cs, JStr s)]) =
         Inr (''{-'' @ toLowerCase (join ''-'' (splitBeforeUpper (c # cs))) @ '':'' @ s @ '';}'')"
    by (simp add: toCss_object isNested_def ownRule_def declarations_def formatRule_def cc)
  have nested: "toCss N (JObj [(c # cs, JObj [(''color'', JStr s)])]) =
         Inr (''.-'' @ toLowerCase (join ''-'' (splitBeforeUpper (c # cs))) @ ''{color:'' @ s @ '';}'')"
    by (simp add: toCss_object isNested_def ownRule_def declarations_def formatRule_def
          childSelector_def cc col)
  from cc leaf nested show "caseConverter (c # cs) = ''-'' @ toLowerCase (join ''-'' (splitBeforeUpper (c # cs)))
     \<and> toCss N (JObj [(c # cs, JStr s)]) =
         Inr (''{-'' @ toLowerCase (join ''-'' (splitBeforeUpper (c # cs))) @ '':'' @ s @ '';}'')
     \<and> toCss N (JObj [(c # cs, JObj [(''color'', JStr s)])]) =
         Inr (''.-'' @ toLowerCase (join ''-'' (splitBeforeUpper (c # cs))) @ ''{color:'' @ s @ '';}'')"
    by blast
qed

theorem caseConverter_caseless_prefix_witness:
  "toUpperChar (CHR ''0'') = CHR ''0'' \<and> toUpperChar (CHR '':'') = CHR '':''
   \<and> caseConverter ''0pad'' = ''-0pad''
   \<and> caseConverter '':hover'' = ''-:hover''
   \<and> toCss intNumbers (JObj [(''0pad'', JStr ''1px'')]) = Inr ''{-0pad:1px;}''
   \<and> toCss intNumbers (JObj [('':hover'', JObj [(''color'', JStr ''red'')])]) = Inr ''.-:hover{color:red;}''"
proof -
  have u: "toUpperChar (CHR ''0'') = CHR ''0''" "toUpperChar (CHR '':'') = CHR '':''" by code_simp+
  have l: "toLowerCase (join ''-'' (splitBeforeUpper ''0pad'')) = ''0pad''"
    "toLowerCase (join ''-'' (splitBeforeUpper '':hover'')) = '':hover''" by code_simp+
  show ?thesis
    using caseConverter_caseless_prefix [of "CHR ''0''" "''pad''" intNumbers "''1px''"]
      caseConverter_caseless_prefix [of "CHR '':''" "''hover''" intNumbers "''red''"] u
    by (simp add: l)
qed

section \<open>Further properties\<close>

text \<open>
  X1: on an object, \<open>toCss\<close> returns exactly when no value that the loop takes for a
  nested object is \<open>null\<close>, at any depth; it then returns the text of the post-order
  flattening, and otherwise it raises the \<open>TypeError\<close> of \<open>Object.entries\<close>.
\<close>

theorem toCss_on_objects:
  "toCss N (JObj kvs) =
     (if traversable (JObj kvs)
      then Inr (concat (map formatRule (flattenPostOrder N [] (JObj kvs))))
      else Inl (TypeError nullEntriesMessage))"
  by (rule toCss_object)

theorem toCss_on_objects_witness:
  "toCss intNumbers (JObj [(''a'', JObj [(''b'', JNull)]), (''c'', JStr ''x'')])
     = Inl (TypeError ''Cannot convert undefined or null to object'')
   \<and> toCss intNumbers (JObj [(''c'', JArr [JNull, JBool True]), (''d'', JUndefined)])
     = Inr ''{c:,true;d:undefined;}''"
proof -
  let ?bad = "[(''a'', JObj [(''b'', JNull)]), (''c'', JStr ''x'')] :: (string \<times> int jsval) list"
  let ?good = "[(''c'', JArr [JNull, JBool True]), (''d'', JUndefined)] :: (string \<times> int jsval) list"
  have b: "\<not> traversable (JObj ?bad)" by code_simp
  have g: "traversable (JObj ?good)" by code_simp
  have v: "concat (map formatRule (flattenPostOrder intNumbers [] (JObj ?good)))
             = ''{c:,true;d:undefined;}''" by code_simp
  show ?thesis
    using toCss_on_objects [of intNumbers ?bad] toCss_on_objects [of intNumbers ?good] b g
    unfolding v by (simp add: nullEntriesMessage_def del: traversable.simps flattenPostOrder.simps)
qed

end
